theory Spec2Isabelle
  imports Complex_Main
begin

section \<open>The Web Serial environment\<close>

text \<open>
  The browser's serial ports are outside the repository. A port is identified by a
  number, and the environment is the set of ports that are currently open. What the
  browser answers to \<^verbatim>\<open>requestPort()\<close>, \<^verbatim>\<open>open()\<close> and \<^verbatim>\<open>close()\<close> is an input of
  each operation. A JavaScript \<^verbatim>\<open>Error\<close> is its \<^verbatim>\<open>name\<close> and its \<^verbatim>\<open>message\<close>.
\<close>

type_synonym port_id = nat

type_synonym serial = "port_id set"

datatype js_error = JsError (error_name: string) (error_message: string)

record connect_env =
  requestPort_result :: "js_error + port_id"
  open_result :: "js_error option"
  usbProductId_truthy :: bool
  random_chip :: nat
  random_mac :: string

section \<open>services/FlashService.ts\<close>

record DeviceInfo =
  chip :: string
  port_label :: string
  mac :: "string option"

record File =
  file_name :: string
  file_size :: nat

text \<open>
  \<^verbatim>\<open>advancedSettings\<close> of the page has the three fields \<^verbatim>\<open>baudRate\<close>, \<^verbatim>\<open>offset\<close>,
  \<^verbatim>\<open>eraseFlash\<close>; \<^verbatim>\<open>FlashOptions\<close> has the same three and \<^verbatim>\<open>file\<close>.
\<close>

record AdvancedSettings =
  baudRate :: int
  offset :: string
  eraseFlash :: bool

record FlashOptions = AdvancedSettings +
  "file" :: File

text \<open>
  JavaScript numbers are modelled exactly: \<^verbatim>\<open>progress\<close> is a rational, byte counts are
  naturals. \<^verbatim>\<open>step\<close> is \<^verbatim>\<open>steps[currentStep]\<close>, which is \<^verbatim>\<open>undefined\<close> out of range:
  \<open>None\<close> stands for \<^verbatim>\<open>undefined\<close>.
\<close>

record FlashProgress =
  step :: "string option"
  progress :: rat
  bytesWritten :: nat
  totalBytes :: nat
  message :: string

text \<open>The only field of the class that is ever written is \<^verbatim>\<open>port\<close>.\<close>

record FlashService =
  port :: "port_id option"

definition new_FlashService :: FlashService where
  "new_FlashService = \<lparr>port = None\<rparr>"

definition chips :: "string list" where
  "chips = [''ESP32'', ''ESP32-S2'', ''ESP32-S3'', ''ESP32-C3'', ''ESP8266'']"

text \<open>
  \<^verbatim>\<open>detectDevice\<close>: the two calls of \<^verbatim>\<open>Math.random()\<close> are inputs;
  \<^verbatim>\<open>Math.floor(Math.random() * chips.length)\<close> lies below \<^verbatim>\<open>chips.length\<close>.
\<close>

definition detectDevice :: "connect_env \<Rightarrow> FlashService \<Rightarrow> DeviceInfo" where
  "detectDevice env svc =
     \<lparr>chip = chips ! (random_chip env mod length chips),
      port_label = (if port svc \<noteq> None \<and> usbProductId_truthy env then ''USB'' else ''Serial''),
      mac = Some (''24:6F:28:'' @ random_mac env)\<rparr>"

definition failed_to_connect :: "js_error \<Rightarrow> js_error" where
  "failed_to_connect e = JsError ''Error'' (''Failed to connect: '' @ error_message e)"

text \<open>
  \<^verbatim>\<open>connect\<close>: the handle is assigned as soon as \<^verbatim>\<open>requestPort()\<close> resolves, then the
  port is opened. The \<^verbatim>\<open>catch\<close> clause rethrows and does nothing else. A browser
  without \<^verbatim>\<open>navigator.serial\<close> makes the first statement throw, which is one of the
  \<open>Inl\<close> answers of \<open>requestPort_result\<close>.
\<close>

definition connect ::
  "connect_env \<Rightarrow> FlashService \<times> serial \<Rightarrow> (js_error + DeviceInfo) \<times> FlashService \<times> serial" where
  "connect env s =
     (case s of (svc, opened) \<Rightarrow>
       (case requestPort_result env of
          Inl e \<Rightarrow> (Inl (failed_to_connect e), svc, opened)
        | Inr p \<Rightarrow>
            (let svc1 = svc\<lparr>port := Some p\<rparr> in
             (case open_result env of
                Some e \<Rightarrow> (Inl (failed_to_connect e), svc1, opened)
              | None \<Rightarrow> (Inr (detectDevice env svc1), svc1, insert p opened)))))"

text \<open>\<^verbatim>\<open>disconnect\<close>: a rejected \<^verbatim>\<open>close()\<close> leaves the handle in place.\<close>

definition disconnect ::
  "js_error option \<Rightarrow> FlashService \<times> serial \<Rightarrow> (js_error + unit) \<times> FlashService \<times> serial" where
  "disconnect close_result s =
     (case s of (svc, opened) \<Rightarrow>
       (case port svc of
          None \<Rightarrow> (Inr (), svc, opened)
        | Some p \<Rightarrow>
            (case close_result of
               Some e \<Rightarrow> (Inl e, svc, opened)
             | None \<Rightarrow> (Inr (), svc\<lparr>port := None\<rparr>, opened - {p}))))"

subsection \<open>formatBytes\<close>

definition digit :: "nat \<Rightarrow> char" where
  "digit d = ''0123456789'' ! (d mod 10)"

fun show_nat :: "nat \<Rightarrow> string" where
  "show_nat n = (if n < 10 then [digit n] else show_nat (n div 10) @ [digit (n mod 10)])"

declare show_nat.simps [simp del]

text \<open>
  \<^verbatim>\<open>x.toFixed(1)\<close> for \<open>x \<ge> 0\<close>: the integer \<open>n\<close> nearest to \<open>10 * x\<close>, the larger
  one at a tie, printed with one digit after the point.
\<close>

definition toFixed1 :: "rat \<Rightarrow> string" where
  "toFixed1 x = (let n = nat \<lfloor>x * 10 + 1 / 2\<rfloor> in show_nat (n div 10) @ ''.'' @ show_nat (n mod 10))"

definition formatBytes :: "nat \<Rightarrow> string" where
  "formatBytes bytes =
     (if bytes < 1024 then show_nat bytes @ '' B''
      else if bytes < 1024 * 1024 then toFixed1 (of_nat bytes / 1024) @ '' KB''
      else toFixed1 (of_nat bytes / (1024 * 1024)) @ '' MB'')"

subsection \<open>flash\<close>

text \<open>
  The phase list, written twice in the repository with the same elements: as
  \<^verbatim>\<open>steps\<close> in \<^verbatim>\<open>FlashService.flash\<close> and as \<^verbatim>\<open>steps\<close> in \<^verbatim>\<open>handleFlash\<close>.
\<close>

definition steps :: "bool \<Rightarrow> string list" where
  "steps erase =
     [''Connecting'', ''Syncing''] @ (if erase then [''Erasing''] else []) @
     [''Writing'', ''Verifying'', ''Done'']"

definition js_nth :: "'a list \<Rightarrow> nat \<Rightarrow> 'a option" where
  "js_nth xs i = (if i < length xs then Some (xs ! i) else None)"

definition updateProgress :: "nat \<Rightarrow> string option \<Rightarrow> rat \<Rightarrow> nat \<Rightarrow> string \<Rightarrow> FlashProgress" where
  "updateProgress total_bytes st pr written msg =
     \<lparr>step = st, progress = pr, bytesWritten = written, totalBytes = total_bytes, message = msg\<rparr>"

text \<open>One iteration of the writing loop: the event of chunk \<open>i\<close>.\<close>

definition write_chunk :: "string option \<Rightarrow> rat \<Rightarrow> rat \<Rightarrow> nat \<Rightarrow> nat \<Rightarrow> nat \<Rightarrow> nat \<Rightarrow> FlashProgress" where
  "write_chunk st writeStartProgress writeEndProgress chunks chunkSize total_bytes i =
     (let written = min ((i + 1) * chunkSize) total_bytes;
          pr = writeStartProgress + ((writeEndProgress - writeStartProgress) * of_nat (i + 1)) / of_nat chunks
      in updateProgress total_bytes st pr written
           (''Writing: '' @ formatBytes written @ ''/'' @ formatBytes total_bytes))"

text \<open>\<^verbatim>\<open>for (let i = 0; i < chunks; i++)\<close>, from the current \<open>i\<close> on.\<close>

function write_loop ::
  "string option \<Rightarrow> rat \<Rightarrow> rat \<Rightarrow> nat \<Rightarrow> nat \<Rightarrow> nat \<Rightarrow> nat \<Rightarrow> FlashProgress list" where
  "write_loop st ws we chunks chunkSize total_bytes i =
     (if i < chunks
      then write_chunk st ws we chunks chunkSize total_bytes i #
           write_loop st ws we chunks chunkSize total_bytes (i + 1)
      else [])"
  by pat_completeness auto
termination
  by (relation "measure (\<lambda>(st, ws, we, chunks, chunkSize, total_bytes, i). chunks - i)") auto

declare write_loop.simps [simp del]

definition no_device :: js_error where
  "no_device = JsError ''Error'' ''No device connected''"

text \<open>
  \<^verbatim>\<open>flash\<close> returns how the promise settles and the events handed to \<^verbatim>\<open>onProgress\<close>, in
  the order of the calls. Nothing in the \<^verbatim>\<open>try\<close> block throws by itself (the only
  callback of the repository, in \<^verbatim>\<open>handleFlash\<close>, only sets state), so the
  \<^verbatim>\<open>catch\<close> clause is not entered.
\<close>

definition flash :: "FlashService \<Rightarrow> FlashOptions \<Rightarrow> (js_error + unit) \<times> FlashProgress list" where
  "flash svc options =
     (if port svc = None then (Inl no_device, [])
      else
        (let steps = steps (eraseFlash options);
             currentStep = 0;
             total_bytes = file_size (file options);
             e1 = [updateProgress total_bytes (js_nth steps currentStep) 0 0 ''Establishing connection...''];
             currentStep = currentStep + 1;
             e2 = [updateProgress total_bytes (js_nth steps currentStep) 10 0 ''Syncing with device...''];
             currentStep = currentStep + 1;
             e3 = (if eraseFlash options
                   then [updateProgress total_bytes (js_nth steps currentStep) 20 0 ''Erasing flash memory...'']
                   else []);
             currentStep = (if eraseFlash options then currentStep + 1 else currentStep);
             writeStartProgress = (if eraseFlash options then 30 else 20);
             writeEndProgress = 85;
             e4 = [updateProgress total_bytes (js_nth steps currentStep) writeStartProgress 0 ''Writing firmware...''];
             chunks = 50;
             chunkSize = nat \<lceil>(of_nat total_bytes :: rat) / of_nat chunks\<rceil>;
             e5 = write_loop (js_nth steps currentStep) writeStartProgress writeEndProgress
                    chunks chunkSize total_bytes 0;
             currentStep = currentStep + 1;
             e6 = [updateProgress total_bytes (js_nth steps currentStep) 90 total_bytes ''Verifying flash...''];
             currentStep = currentStep + 1;
             e7 = [updateProgress total_bytes (js_nth steps currentStep) 100 total_bytes ''Flash completed successfully!'']
         in (Inr (), e1 @ e2 @ e3 @ e4 @ e5 @ e6 @ e7)))"


subsection \<open>getErrorMessage\<close>

definition getErrorMessage :: "js_error \<Rightarrow> string" where
  "getErrorMessage e =
     (if error_name e = ''NotFoundError''
        then ''No device selected. Please connect your ESP device and try again.''
      else if error_name e = ''NotSupportedError''
        then ''Web Serial is not supported in this browser. Please use Chrome or Edge.''
      else if error_name e = ''SecurityError''
        then ''Permission denied. Please allow access to the serial port.''
      else if error_name e = ''NetworkError''
        then ''Failed to communicate with device. Check your connection and try again.''
      else if error_message e \<noteq> [] then error_message e
      else ''An unknown error occurred'')"

section \<open>The page: handleFlash and its step list\<close>

datatype FlashStepStatus = pending | active | completed | error

record FlashStep =
  name :: string
  status :: FlashStepStatus

datatype FlashStats =
  FlashStats (stats_chip: string) (stats_baudRate: int) (stats_fileSize: nat) (stats_duration: int)

text \<open>The state of the page that \<^verbatim>\<open>handleFlash\<close> reads and writes.\<close>

record Index_state =
  isConnected :: bool
  deviceInfo :: "DeviceInfo option"
  firmwareFile :: "File option"
  advancedSettings :: AdvancedSettings
  isFlashing :: bool
  flashProgress :: rat
  flashLogs :: "string list"
  flashSteps :: "FlashStep list"
  flashError :: "string option"
  flashCompleted :: bool
  flashStats :: "FlashStats option"

text \<open>\<^verbatim>\<open>Array.prototype.indexOf\<close>: the first position of a strictly equal element, or \<open>-1\<close>.\<close>

fun indexOf_from :: "string list \<Rightarrow> string option \<Rightarrow> int \<Rightarrow> int" where
  "indexOf_from [] y k = - 1"
| "indexOf_from (x # xs) y k = (if Some x = y then k else indexOf_from xs y (k + 1))"

definition indexOf :: "string list \<Rightarrow> string option \<Rightarrow> int" where
  "indexOf xs y = indexOf_from xs y 0"

text \<open>
  The function mapped over the step list by the progress callback, at the element
  \<open>st\<close> of position \<open>index\<close>.
\<close>

definition update_step :: "string list \<Rightarrow> FlashProgress \<Rightarrow> FlashStep \<Rightarrow> nat \<Rightarrow> FlashStep" where
  "update_step plan pr st index =
     (if Some (name st) = step pr then st\<lparr>status := active\<rparr>
      else
        (let currentIndex = indexOf plan (step pr)
         in if int index < currentIndex then st\<lparr>status := completed\<rparr> else st))"

definition update_steps :: "string list \<Rightarrow> FlashProgress \<Rightarrow> FlashStep list \<Rightarrow> FlashStep list" where
  "update_steps plan pr prev =
     map (\<lambda>(st, index). update_step plan pr st index) (zip prev [0..<length prev])"

text \<open>The callback given to \<^verbatim>\<open>flash\<close>: three state updates.\<close>

definition onProgress :: "string list \<Rightarrow> Index_state \<Rightarrow> FlashProgress \<Rightarrow> Index_state" where
  "onProgress plan ui pr =
     ui\<lparr>flashProgress := progress pr,
        flashLogs := flashLogs ui @ [message pr],
        flashSteps := update_steps plan pr (flashSteps ui)\<rparr>"

definition reset_steps :: "string list \<Rightarrow> FlashStep list" where
  "reset_steps plan = map (\<lambda>n. \<lparr>name = n, status = pending\<rparr>) plan"

definition mark_all_completed :: "FlashStep list \<Rightarrow> FlashStep list" where
  "mark_all_completed prev = map (\<lambda>st. st\<lparr>status := completed\<rparr>) prev"

definition mark_current_error :: "FlashStep list \<Rightarrow> FlashStep list" where
  "mark_current_error prev =
     map (\<lambda>st. if status st = active then st\<lparr>status := error\<rparr> else st) prev"

text \<open>
  \<^verbatim>\<open>handleFlash\<close>: the two readings of \<^verbatim>\<open>Date.now()\<close> are inputs. Toasts are not
  modelled. The handler uses the service only through
  \<^verbatim>\<open>await flashService.flash(options, callback)\<close>, that is, through how the promise settles
  and the events handed to the callback before it settles. \<open>handleFlash_with\<close> is the
  handler with that method as its parameter \<open>fl\<close>: the \<^verbatim>\<open>try\<close> block is the \<open>Inr\<close>
  branch, the \<^verbatim>\<open>catch\<close> block the \<open>Inl\<close> branch, and \<^verbatim>\<open>finally\<close> ends both.
  \<open>handleFlash\<close> is the handler of the page, whose service is a \<^verbatim>\<open>FlashService\<close>.
\<close>

definition handleFlash_with ::
  "(FlashOptions \<Rightarrow> (js_error + unit) \<times> FlashProgress list) \<Rightarrow> int \<Rightarrow> int \<Rightarrow>
     Index_state \<Rightarrow> Index_state" where
  "handleFlash_with fl startTime endTime ui =
     (case firmwareFile ui of
        None \<Rightarrow> ui
      | Some fw \<Rightarrow>
          if \<not> isConnected ui then ui
          else
            (let settings = advancedSettings ui;
                 ui1 = ui\<lparr>isFlashing := True, flashError := None, flashCompleted := False,
                          flashProgress := 0, flashLogs := []\<rparr>;
                 plan = steps (eraseFlash settings);
                 ui2 = ui1\<lparr>flashSteps := reset_steps plan\<rparr>;
                 run = fl \<lparr>baudRate = baudRate settings, offset = offset settings,
                           eraseFlash = eraseFlash settings, file = fw\<rparr>;
                 ui3 = foldl (onProgress plan) ui2 (snd run)
             in (case fst run of
                   Inr u \<Rightarrow>
                     ui3\<lparr>flashSteps := mark_all_completed (flashSteps ui3),
                         flashCompleted := True,
                         flashStats := Some (FlashStats
                           (case deviceInfo ui of
                              None \<Rightarrow> ''Unknown''
                            | Some info \<Rightarrow> (if chip info \<noteq> [] then chip info else ''Unknown''))
                           (baudRate settings) (file_size fw) (endTime - startTime)),
                         isFlashing := False\<rparr>
                 | Inl e \<Rightarrow>
                     ui3\<lparr>flashError := Some (getErrorMessage e),
                         flashSteps := mark_current_error (flashSteps ui3),
                         isFlashing := False\<rparr>)))"

definition handleFlash :: "FlashService \<Rightarrow> int \<Rightarrow> int \<Rightarrow> Index_state \<Rightarrow> Index_state" where
  "handleFlash flashService startTime endTime ui =
     handleFlash_with (flash flashService) startTime endTime ui"


section \<open>Names used in the statements\<close>

text \<open>
  \<^verbatim>\<open>chunkSize\<close> and \<^verbatim>\<open>writeStartProgress\<close> of \<^verbatim>\<open>flash\<close>, as functions of the size of
  the file and of the erase flag.
\<close>

definition chunk_size :: "nat \<Rightarrow> nat" where
  "chunk_size tb = nat \<lceil>(of_nat tb :: rat) / 50\<rceil>"

definition write_start :: "bool \<Rightarrow> rat" where
  "write_start erase = (if erase then 30 else 20)"

text \<open>Answers of the browser: a port is granted and opens, or is granted and fails to open.\<close>

definition env_ok :: "port_id \<Rightarrow> connect_env" where
  "env_ok p = \<lparr>requestPort_result = Inr p, open_result = None, usbProductId_truthy = True,
      random_chip = 0, random_mac = ''A1B2C3''\<rparr>"

definition env_open_fails :: "port_id \<Rightarrow> connect_env" where
  "env_open_fails p = \<lparr>requestPort_result = Inr p,
      open_result = Some (JsError ''NetworkError'' ''Failed to open serial port.''),
      usbProductId_truthy = True, random_chip = 0, random_mac = ''A1B2C3''\<rparr>"

definition env_cancelled :: connect_env where
  "env_cancelled = \<lparr>requestPort_result = Inl (JsError ''NotFoundError'' ''No port selected by the user.''),
      open_result = None, usbProductId_truthy = False, random_chip = 0, random_mac = ''A1B2C3''\<rparr>"

text \<open>Options that break the invariants of the data model, and the options of the scenario.\<close>

definition invalid_options :: FlashOptions where
  "invalid_options = \<lparr>baudRate = 0, offset = ''xyz'', eraseFlash = False,
     file = \<lparr>file_name = ''empty.bin'', file_size = 0\<rparr>\<rparr>"

definition oversized_options :: FlashOptions where
  "oversized_options = \<lparr>baudRate = 115200, offset = ''0x1000'', eraseFlash = True,
     file = \<lparr>file_name = ''big.bin'', file_size = 16 * 1024 * 1024 + 1\<rparr>\<rparr>"

definition scenario_options :: FlashOptions where
  "scenario_options = \<lparr>baudRate = 115200, offset = ''0x1000'', eraseFlash = True,
     file = \<lparr>file_name = ''firmware.bin'', file_size = 4096\<rparr>\<rparr>"

text \<open>The events of one phase, in emission order.\<close>

definition phase_events :: "string \<Rightarrow> FlashProgress list \<Rightarrow> FlashProgress list" where
  "phase_events ph evs = filter (\<lambda>ev. step ev = Some ph) evs"

definition small_options :: FlashOptions where
  "small_options = \<lparr>baudRate = 115200, offset = ''0x1000'', eraseFlash = False,
     file = \<lparr>file_name = ''small.bin'', file_size = 51\<rparr>\<rparr>"

text \<open>The page of the scenario: connected, a file of 4096 bytes chosen, default settings.\<close>

definition scenario_ui :: Index_state where
  "scenario_ui =
     \<lparr>isConnected = True,
      deviceInfo = Some \<lparr>chip = ''ESP32'', port_label = ''USB'', mac = Some ''24:6F:28:A1B2C3''\<rparr>,
      firmwareFile = Some \<lparr>file_name = ''firmware.bin'', file_size = 4096\<rparr>,
      advancedSettings = \<lparr>baudRate = 115200, offset = ''0x1000'', eraseFlash = True\<rparr>,
      isFlashing = False, flashProgress = 0, flashLogs = [],
      flashSteps = reset_steps (steps True),
      flashError = None, flashCompleted = False, flashStats = None\<rparr>"

text \<open>
  The step list in which \<open>k\<close> phases have started: the first \<open>k - 1\<close> are completed,
  phase \<open>k\<close> is active, the others are pending. The position of an event's phase in a
  plan.
\<close>

definition phase_status :: "nat \<Rightarrow> nat \<Rightarrow> FlashStepStatus" where
  "phase_status k i = (if Suc i < k then completed else if Suc i = k then active else pending)"

definition shape :: "string list \<Rightarrow> nat \<Rightarrow> FlashStep list" where
  "shape plan k = map (\<lambda>i. \<lparr>name = plan ! i, status = phase_status k i\<rparr>) [0..<length plan]"

definition phase_index :: "string list \<Rightarrow> FlashProgress \<Rightarrow> nat" where
  "phase_index plan ev = nat (indexOf plan (step ev))"

text \<open>An event of the writing phase, and an event of a phase that no plan has.\<close>

definition writing_event :: FlashProgress where
  "writing_event = \<lparr>step = Some ''Writing'', progress = 30, bytesWritten = 0, totalBytes = 4096,
     message = ''Writing firmware...''\<rparr>"

definition diagnostic_event :: FlashProgress where
  "diagnostic_event = \<lparr>step = Some ''Diagnostics'', progress = 50, bytesWritten = 0, totalBytes = 4096,
     message = ''Probing...''\<rparr>"

text \<open>
  A service that runs the pipeline of \<^verbatim>\<open>FlashService\<close> on port 1 and loses the device
  after ten events.
\<close>

definition lossy_flash :: "FlashOptions \<Rightarrow> (js_error + unit) \<times> FlashProgress list" where
  "lossy_flash options =
     (Inl (JsError ''NetworkError'' ''The device has been lost.''),
      take 10 (snd (flash \<lparr>port = Some 1\<rparr> options)))"

section \<open>The event stream of flash\<close>

lemma write_loop_map:
  "write_loop st ws we chunks cs tb i = map (write_chunk st ws we chunks cs tb) [i..<chunks]"
proof (induction st ws we chunks cs tb i rule: write_loop.induct)
  case (1 st ws we chunks cs tb i)
  show ?case
  proof (cases "i < chunks")
    case True
    with "1" show ?thesis
      by (subst write_loop.simps) (simp add: upt_conv_Cons)
  next
    case False
    then show ?thesis
      by (subst write_loop.simps) simp
  qed
qed

text \<open>
  With a port handle the run resolves, and its events are: the fixed events of the first
  phases, the start of the writing phase, one event per iteration of the loop, and the two
  closing events. Every index into \<^verbatim>\<open>steps\<close> is in range.
\<close>

lemma flash_events:
  assumes "port svc \<noteq> None"
  shows "flash svc options =
    (Inr (),
     [updateProgress (file_size (file options)) (Some ''Connecting'') 0 0 ''Establishing connection...'',
      updateProgress (file_size (file options)) (Some ''Syncing'') 10 0 ''Syncing with device...''] @
     (if eraseFlash options
      then [updateProgress (file_size (file options)) (Some ''Erasing'') 20 0 ''Erasing flash memory...'']
      else []) @
     [updateProgress (file_size (file options)) (Some ''Writing'') (write_start (eraseFlash options)) 0
        ''Writing firmware...''] @
     map (write_chunk (Some ''Writing'') (write_start (eraseFlash options)) 85 50
            (chunk_size (file_size (file options))) (file_size (file options))) [0..<50] @
     [updateProgress (file_size (file options)) (Some ''Verifying'') 90 (file_size (file options))
        ''Verifying flash...'',
      updateProgress (file_size (file options)) (Some ''Done'') 100 (file_size (file options))
        ''Flash completed successfully!''])"
  using assms
  by (simp add: flash_def Let_def steps_def js_nth_def write_loop_map chunk_size_def write_start_def)

lemma updateProgress_fields [simp]:
  "step (updateProgress tb st pr w msg) = st"
  "progress (updateProgress tb st pr w msg) = pr"
  "bytesWritten (updateProgress tb st pr w msg) = w"
  "totalBytes (updateProgress tb st pr w msg) = tb"
  "message (updateProgress tb st pr w msg) = msg"
  by (simp_all add: updateProgress_def)

lemma write_chunk_fields [simp]:
  "step (write_chunk st ws we chunks cs tb i) = st"
  "progress (write_chunk st ws we chunks cs tb i) = ws + ((we - ws) * of_nat (i + 1)) / of_nat chunks"
  "bytesWritten (write_chunk st ws we chunks cs tb i) = min ((i + 1) * cs) tb"
  "totalBytes (write_chunk st ws we chunks cs tb i) = tb"
  by (simp_all add: write_chunk_def Let_def)

lemma writing_events:
  assumes "port svc \<noteq> None"
  shows "phase_events ''Writing'' (snd (flash svc options)) =
     updateProgress (file_size (file options)) (Some ''Writing'') (write_start (eraseFlash options)) 0
        ''Writing firmware...'' #
     map (write_chunk (Some ''Writing'') (write_start (eraseFlash options)) 85 50
            (chunk_size (file_size (file options))) (file_size (file options))) [0..<50]"
  by (simp add: flash_events [OF assms] phase_events_def filter_map o_def)

lemma done_events:
  assumes "port svc \<noteq> None"
  shows "phase_events ''Done'' (snd (flash svc options)) =
     [updateProgress (file_size (file options)) (Some ''Done'') 100 (file_size (file options))
        ''Flash completed successfully!'']"
  by (simp add: flash_events [OF assms] phase_events_def filter_map o_def)

lemma last_event:
  assumes "port svc \<noteq> None"
  shows "last (snd (flash svc options)) =
     updateProgress (file_size (file options)) (Some ''Done'') 100 (file_size (file options))
        ''Flash completed successfully!''"
  by (simp add: flash_events [OF assms])

subsection \<open>Chunk sizes\<close>

text \<open>Fifty chunks of the computed size cover the file.\<close>

lemma chunk_size_covers: "tb \<le> 50 * chunk_size tb"
proof -
  have "(of_nat tb :: rat) \<le> 50 * of_int \<lceil>(of_nat tb :: rat) / 50\<rceil>"
    using le_of_int_ceiling [of "(of_nat tb :: rat) / 50"] by linarith
  then have "(of_int (int tb) :: rat) \<le> of_int (50 * \<lceil>(of_nat tb :: rat) / 50\<rceil>)"
    by simp
  then have "int tb \<le> 50 * \<lceil>(of_nat tb :: rat) / 50\<rceil>"
    by (simp only: of_int_le_iff)
  then show ?thesis
    by (simp add: chunk_size_def)
qed

lemma last_chunk_bytes: "min (50 * chunk_size tb) tb = tb"
  using chunk_size_covers [of tb] by simp

lemma chunk_size_51: "chunk_size 51 = 2"
proof -
  have "\<lceil>(51 :: rat) / 50\<rceil> = 2" by (simp add: ceiling_eq_iff)
  then show ?thesis by (simp add: chunk_size_def)
qed

lemma chunk_size_4096: "chunk_size 4096 = 82"
proof -
  have "\<lceil>(4096 :: rat) / 50\<rceil> = 82" by (simp add: ceiling_eq_iff)
  then show ?thesis by (simp add: chunk_size_def)
qed

lemma min_step: "min (a + c) t - min a t \<le> (c :: nat)"
  by arith

subsection \<open>Monotonicity along the writing loop\<close>

lemma write_start_bounds: "20 \<le> write_start e" "write_start e \<le> 30"
  by (simp_all add: write_start_def)

lemma chunk_progress_mono:
  assumes "i \<le> j"
  shows "progress (write_chunk st (write_start e) 85 50 cs tb i)
         \<le> progress (write_chunk st (write_start e) 85 50 cs tb j)"
proof -
  have "(of_nat (i + 1) :: rat) \<le> of_nat (j + 1)" using assms by simp
  moreover have "0 \<le> 85 - write_start e" using write_start_bounds [of e] by simp
  ultimately have "(85 - write_start e) * of_nat (i + 1) \<le> (85 - write_start e) * of_nat (j + 1)"
    by (rule mult_left_mono)
  then show ?thesis by (simp add: divide_right_mono)
qed

lemma chunk_progress_bounds:
  assumes "i < 50"
  shows "write_start e \<le> progress (write_chunk st (write_start e) 85 50 cs tb i)"
    and "progress (write_chunk st (write_start e) 85 50 cs tb i) \<le> 85"
proof -
  have d: "0 \<le> 85 - write_start e" using write_start_bounds [of e] by simp
  have "0 \<le> (85 - write_start e) * of_nat (i + 1) / 50"
    using d by simp
  then show "write_start e \<le> progress (write_chunk st (write_start e) 85 50 cs tb i)"
    by simp
  have "(of_nat (i + 1) :: rat) \<le> 50" using assms by simp
  with d have "(85 - write_start e) * of_nat (i + 1) \<le> (85 - write_start e) * 50"
    by (rule mult_left_mono [rotated])
  then show "progress (write_chunk st (write_start e) 85 50 cs tb i) \<le> 85"
    by simp
qed

lemma chunk_progress_consts:
  assumes "i < 50"
  shows "0 \<le> progress (write_chunk st (write_start e) 85 50 cs tb i)"
    and "10 \<le> progress (write_chunk st (write_start e) 85 50 cs tb i)"
    and "20 \<le> progress (write_chunk st (write_start e) 85 50 cs tb i)"
    and "progress (write_chunk st (write_start e) 85 50 cs tb i) \<le> 90"
    and "progress (write_chunk st (write_start e) 85 50 cs tb i) \<le> 100"
  using chunk_progress_bounds [OF assms, where e = e and st = st and cs = cs and tb = tb]
    write_start_bounds [of e]
  by (simp_all del: write_chunk_fields)

lemma chunk_bytes_mono:
  "i \<le> j \<Longrightarrow> bytesWritten (write_chunk st ws we chunks cs tb i)
      \<le> bytesWritten (write_chunk st ws we chunks cs tb j)"
  by (simp add: min.coboundedI1)

lemma sorted_chunk_progress:
  "sorted (map (\<lambda>i. progress (write_chunk st (write_start e) 85 50 cs tb i)) [0..<50])"
  unfolding sorted_map
  by (rule sorted_wrt_mono_rel [of _ "(\<le>)"]) (simp_all add: chunk_progress_mono del: write_chunk_fields)

lemma sorted_chunk_bytes:
  "sorted (map (\<lambda>i. bytesWritten (write_chunk st ws we chunks cs tb i)) [0..<50])"
  unfolding sorted_map
  by (rule sorted_wrt_mono_rel [of _ "(\<le>)"]) (simp_all add: chunk_bytes_mono del: write_chunk_fields)

lemma sorted_progress:
  assumes "port svc \<noteq> None"
  shows "sorted (map progress (snd (flash svc options)))"
  using write_start_bounds [of "eraseFlash options"]
  by (auto simp add: flash_events [OF assms] sorted_append o_def sorted_chunk_progress
        chunk_progress_consts chunk_progress_bounds simp del: write_chunk_fields)

lemma progress_range:
  assumes "ev \<in> set (snd (flash svc options))"
  shows "0 \<le> progress ev \<and> progress ev \<le> 100"
proof (cases "port svc = None")
  case True
  with assms show ?thesis by (simp add: flash_def)
next
  case False
  with assms write_start_bounds [of "eraseFlash options"] show ?thesis
    by (auto simp add: flash_events chunk_progress_consts simp del: write_chunk_fields split: if_splits)
qed

lemma sorted_bytesWritten:
  assumes "port svc \<noteq> None"
  shows "sorted (map bytesWritten (snd (flash svc options)))"
  by (auto simp add: flash_events [OF assms] sorted_append o_def sorted_chunk_bytes
        simp del: write_chunk_fields) simp_all

lemma bytes_range:
  assumes "ev \<in> set (snd (flash svc options))"
  shows "bytesWritten ev \<le> totalBytes ev \<and> totalBytes ev = file_size (file options)"
proof (cases "port svc = None")
  case True
  with assms show ?thesis by (simp add: flash_def)
next
  case False
  with assms show ?thesis
    by (auto simp add: flash_events split: if_splits)
qed

subsection \<open>Phase names along the stream\<close>

lemma remdups_adj_run: "remdups_adj (x # replicate n x @ ys) = remdups_adj (x # ys)"
  by (induction n) simp_all

lemma chunk_steps:
  "map step (map (write_chunk st ws we chunks cs tb) [0..<n]) = replicate n st"
  by (simp add: o_def map_replicate_const)

section \<open>Device session\<close>

text \<open>\<^verbatim>\<open>connect\<close> closes no port, whatever the session holds and the browser answers.\<close>

lemma connect_closes_nothing: "opened \<subseteq> snd (snd (connect env (svc, opened)))"
  by (auto simp add: connect_def Let_def split: sum.splits option.splits)

text \<open>
  C1. A session connected to port 1 calls \<^verbatim>\<open>connect()\<close> again and the user grants
  port 2: the handle becomes port 2 and port 1 is not closed, so two ports are open and
  the handle of the first is lost. The first conjunct is the connect that made the
  session Connected; the last one is \<^verbatim>\<open>disconnect()\<close> on that session, which closes
  the port before it drops the handle.
\<close>

theorem reconnect_leaves_prior_port_open:
  "connect (env_ok 1) (new_FlashService, {}) =
     (Inr \<lparr>chip = ''ESP32'', port_label = ''USB'', mac = Some ''24:6F:28:A1B2C3''\<rparr>,
      \<lparr>port = Some 1\<rparr>, {1})
   \<and> snd (connect (env_ok 2) (\<lparr>port = Some 1\<rparr>, {1})) = (\<lparr>port = Some 2\<rparr>, {1, 2})
   \<and> disconnect None (\<lparr>port = Some 1\<rparr>, {1}) = (Inr (), \<lparr>port = None\<rparr>, {})"
  by (simp add: connect_def disconnect_def env_ok_def new_FlashService_def detectDevice_def chips_def
        insert_commute)

text \<open>
  C2. A disconnected session calls \<^verbatim>\<open>connect()\<close>, the user grants port 1 and opening it
  fails: \<^verbatim>\<open>connect()\<close> fails, yet the session keeps the handle of port 1, and a later
  \<^verbatim>\<open>flash\<close> runs instead of answering that no device is connected. When the user
  cancels the selection instead, no handle is kept.
\<close>

theorem failed_open_retains_port:
  "connect (env_open_fails 1) (new_FlashService, {}) =
     (Inl (JsError ''Error'' ''Failed to connect: Failed to open serial port.''), \<lparr>port = Some 1\<rparr>, {})
   \<and> fst (flash \<lparr>port = Some 1\<rparr> scenario_options) = Inr ()
   \<and> flash new_FlashService scenario_options = (Inl (JsError ''Error'' ''No device connected''), [])
   \<and> connect env_cancelled (new_FlashService, {}) =
     (Inl (JsError ''Error'' ''Failed to connect: No port selected by the user.''), \<lparr>port = None\<rparr>, {})"
  by (simp add: connect_def env_open_fails_def env_cancelled_def new_FlashService_def
        failed_to_connect_def flash_events)
    (simp add: flash_def no_device_def)

section \<open>Preconditions of flash\<close>

text \<open>
  C3, as stated, fails: on a session that holds a port, \<^verbatim>\<open>flash\<close> with an empty file, a
  baud rate of 0 and an offset that is no hexadecimal number resolves after 55 events, and
  so does \<^verbatim>\<open>flash\<close> with a file of 16 MiB + 1 byte, after 56 events.
\<close>

theorem flash_accepts_invalid_options:
  "fst (flash \<lparr>port = Some 1\<rparr> invalid_options) = Inr ()
   \<and> length (snd (flash \<lparr>port = Some 1\<rparr> invalid_options)) = 55
   \<and> fst (flash \<lparr>port = Some 1\<rparr> oversized_options) = Inr ()
   \<and> length (snd (flash \<lparr>port = Some 1\<rparr> oversized_options)) = 56"
  by (simp add: flash_events invalid_options_def oversized_options_def)

text \<open>
  C3, amended. The only precondition that \<^verbatim>\<open>flash\<close> checks is the port handle: without
  one it fails with the error "No device connected" and emits no event; with one it
  resolves and emits events, whatever the options are.
\<close>

theorem flash_checks_port_only:
  "(port svc = None \<longrightarrow> flash svc options = (Inl (JsError ''Error'' ''No device connected''), []))
   \<and> (port svc \<noteq> None \<longrightarrow> fst (flash svc options) = Inr () \<and> snd (flash svc options) \<noteq> [])"
  by (simp add: flash_events) (simp add: flash_def no_device_def)

theorem flash_checks_port_only_witness:
  "flash new_FlashService invalid_options = (Inl (JsError ''Error'' ''No device connected''), [])
   \<and> fst (flash \<lparr>port = Some 1\<rparr> invalid_options) = Inr ()
   \<and> snd (flash \<lparr>port = Some 1\<rparr> invalid_options) \<noteq> []"
  using flash_checks_port_only [of new_FlashService invalid_options]
    flash_checks_port_only [of "\<lparr>port = Some 1\<rparr>" invalid_options]
  by (simp add: new_FlashService_def)

section \<open>Inputs that flash does not read\<close>

text \<open>
  C10. Two option records with the same file size and the same erase flag give the same
  result and the same events, whatever their baud rates and offsets are.
\<close>

theorem flash_ignores_baudRate_and_offset:
  assumes "file_size (file o1) = file_size (file o2)" and "eraseFlash o1 = eraseFlash o2"
  shows "flash svc o1 = flash svc o2"
  using assms by (simp add: flash_def)

theorem flash_ignores_baudRate_and_offset_witness:
  "flash \<lparr>port = Some 1\<rparr> oversized_options =
   flash \<lparr>port = Some 1\<rparr> (oversized_options\<lparr>baudRate := 9600, offset := ''0x0''\<rparr>)"
  using flash_ignores_baudRate_and_offset
    [of oversized_options "oversized_options\<lparr>baudRate := 9600, offset := ''0x0''\<rparr>" "\<lparr>port = Some 1\<rparr>"]
  by simp


section \<open>Order of the phases\<close>

text \<open>
  C4. On a session that holds a port, the phase names of the emitted events, with each run
  of equal consecutive names collapsed to one, are exactly the phase list computed from
  the erase flag, and the names of that list are pairwise different: every phase of the
  plan occurs, in the order of the plan, and none comes back after a later one.
\<close>

theorem phases_follow_plan:
  assumes "port svc \<noteq> None"
  shows "remdups_adj (map step (snd (flash svc options))) = map Some (steps (eraseFlash options))
         \<and> distinct (steps (eraseFlash options))"
  by (simp add: flash_events [OF assms] chunk_steps remdups_adj_run steps_def del: map_map)

theorem phases_follow_plan_witness:
  "remdups_adj (map step (snd (flash \<lparr>port = Some 1\<rparr> scenario_options)))
     = [Some ''Connecting'', Some ''Syncing'', Some ''Erasing'', Some ''Writing'', Some ''Verifying'',
        Some ''Done'']
   \<and> remdups_adj (map step (snd (flash \<lparr>port = Some 1\<rparr> invalid_options)))
     = [Some ''Connecting'', Some ''Syncing'', Some ''Writing'', Some ''Verifying'', Some ''Done'']"
  using phases_follow_plan [of "\<lparr>port = Some 1\<rparr>" scenario_options]
    phases_follow_plan [of "\<lparr>port = Some 1\<rparr>" invalid_options]
  by (simp add: steps_def scenario_options_def invalid_options_def)

section \<open>Percent and byte counts\<close>

text \<open>
  C5. Along the events of a run, \<^verbatim>\<open>progress\<close> never decreases and lies between 0 and
  100, \<^verbatim>\<open>bytesWritten\<close> never decreases and is at most \<^verbatim>\<open>totalBytes\<close>, and
  \<^verbatim>\<open>totalBytes\<close> is the size of the file in every event.
\<close>

theorem progress_and_bytes_monotone_bounded:
  "sorted (map progress (snd (flash svc options)))
   \<and> (\<forall>ev \<in> set (snd (flash svc options)). 0 \<le> progress ev \<and> progress ev \<le> 100)
   \<and> sorted (map bytesWritten (snd (flash svc options)))
   \<and> (\<forall>ev \<in> set (snd (flash svc options)).
        bytesWritten ev \<le> totalBytes ev \<and> totalBytes ev = file_size (file options))"
proof (cases "port svc = None")
  case True
  then show ?thesis by (simp add: flash_def)
next
  case False
  then show ?thesis
    using sorted_progress sorted_bytesWritten progress_range bytes_range by blast
qed

theorem progress_and_bytes_monotone_bounded_witness:
  "last (snd (flash \<lparr>port = Some 1\<rparr> scenario_options)) \<in> set (snd (flash \<lparr>port = Some 1\<rparr> scenario_options))
   \<and> 0 \<le> progress (last (snd (flash \<lparr>port = Some 1\<rparr> scenario_options)))
   \<and> progress (last (snd (flash \<lparr>port = Some 1\<rparr> scenario_options))) \<le> 100
   \<and> bytesWritten (last (snd (flash \<lparr>port = Some 1\<rparr> scenario_options)))
       \<le> totalBytes (last (snd (flash \<lparr>port = Some 1\<rparr> scenario_options)))
   \<and> totalBytes (last (snd (flash \<lparr>port = Some 1\<rparr> scenario_options))) = 4096
   \<and> sorted (map progress (snd (flash \<lparr>port = Some 1\<rparr> scenario_options)))
   \<and> sorted (map bytesWritten (snd (flash \<lparr>port = Some 1\<rparr> scenario_options)))"
proof -
  let ?evs = "snd (flash \<lparr>port = Some 1\<rparr> scenario_options)"
  have mem: "last ?evs \<in> set ?evs"
    by (simp add: flash_events)
  have size: "file_size (file scenario_options) = 4096"
    by (simp add: scenario_options_def)
  from progress_and_bytes_monotone_bounded [of "\<lparr>port = Some 1\<rparr>" scenario_options] mem size
  show ?thesis by metis
qed

section \<open>The writing phase\<close>

text \<open>
  C6, as stated, fails: with a file of 51 bytes the chunk size is 2, the 26th chunk event
  already reports all 51 bytes, and the 27th reports 51 again, so the 27th chunk is empty
  although it is not the last one (the events of the phase are numbered from 0, event 0
  being the start of the phase).
\<close>

theorem small_file_chunks_not_equal:
  "nat \<lceil>(of_nat (file_size (file small_options)) :: rat) / 50\<rceil> = 2
   \<and> bytesWritten (phase_events ''Writing'' (snd (flash \<lparr>port = Some 1\<rparr> small_options)) ! 26) = 51
   \<and> bytesWritten (phase_events ''Writing'' (snd (flash \<lparr>port = Some 1\<rparr> small_options)) ! 27) = 51
   \<and> bytesWritten (phase_events ''Writing'' (snd (flash \<lparr>port = Some 1\<rparr> small_options)) ! 49) = 51"
  using chunk_size_51
  by (simp add: writing_events small_options_def) (simp add: chunk_size_def)

text \<open>
  C6, amended. The writing phase has 51 events: its start, at percent 30 with erase and 20
  without and with no byte written, then one event for each of 50 chunks. The event of
  chunk \<open>i\<close> reports \<open>min (i * chunkSize) totalBytes\<close> bytes, where \<open>chunkSize\<close> is
  the ceiling of \<open>totalBytes / 50\<close>, so no chunk is larger than \<open>chunkSize\<close>; its
  percent is \<open>start + (85 - start) * i / 50\<close>. The last chunk event reports all bytes at
  percent 85, and the byte counts never decrease.
\<close>

theorem writing_phase_chunks:
  assumes "port svc \<noteq> None"
  shows "let ws = phase_events ''Writing'' (snd (flash svc options));
             tb = file_size (file options);
             cs = nat \<lceil>(of_nat tb :: rat) / 50\<rceil>;
             start = (if eraseFlash options then 30 else 20)
         in length ws = 51
            \<and> progress (ws ! 0) = start \<and> bytesWritten (ws ! 0) = 0
            \<and> (\<forall>i. 1 \<le> i \<and> i \<le> 50 \<longrightarrow>
                  bytesWritten (ws ! i) = min (i * cs) tb
                  \<and> bytesWritten (ws ! i) - bytesWritten (ws ! (i - 1)) \<le> cs
                  \<and> progress (ws ! i) = start + (85 - start) * of_nat i / 50)
            \<and> bytesWritten (ws ! 50) = tb \<and> progress (ws ! 50) = 85
            \<and> sorted (map bytesWritten ws)"
proof -
  let ?tb = "file_size (file options)"
  let ?cs = "chunk_size ?tb"
  let ?start = "write_start (eraseFlash options)"
  let ?ws = "phase_events ''Writing'' (snd (flash svc options))"
  have ws: "?ws = updateProgress ?tb (Some ''Writing'') ?start 0 ''Writing firmware...'' #
      map (write_chunk (Some ''Writing'') ?start 85 50 ?cs ?tb) [0..<50]"
    by (rule writing_events [OF assms])
  have len: "length ?ws = 51" by (simp add: ws)
  have first: "progress (?ws ! 0) = ?start" "bytesWritten (?ws ! 0) = 0"
    by (simp_all add: ws)
  have nth: "?ws ! i = write_chunk (Some ''Writing'') ?start 85 50 ?cs ?tb (i - 1)"
    if "1 \<le> i" "i \<le> 50" for i
    using that by (simp add: ws nth_Cons')
  have bytes: "bytesWritten (?ws ! i) = min (i * ?cs) ?tb" if "1 \<le> i" "i \<le> 50" for i
    using that by (simp add: nth)
  have prog: "progress (?ws ! i) = ?start + (85 - ?start) * of_nat i / 50" if "1 \<le> i" "i \<le> 50" for i
    using that by (simp add: nth of_nat_diff)
  have step_le: "bytesWritten (?ws ! i) - bytesWritten (?ws ! (i - 1)) \<le> ?cs"
    if "1 \<le> i" "i \<le> 50" for i
  proof (cases "i = 1")
    case True
    then show ?thesis by (simp add: ws)
  next
    case False
    with that have "1 \<le> i - 1" "i - 1 \<le> 50" by simp_all
    then have "bytesWritten (?ws ! (i - 1)) = min ((i - 1) * ?cs) ?tb" by (rule bytes)
    moreover have "i * ?cs = (i - 1) * ?cs + ?cs"
      using that by (simp add: algebra_simps mult_eq_if)
    moreover have "min ((i - 1) * ?cs + ?cs) ?tb - min ((i - 1) * ?cs) ?tb \<le> ?cs"
      by (rule min_step)
    ultimately show ?thesis
      using bytes [OF that] by (simp only:)
  qed
  have last_b: "bytesWritten (?ws ! 50) = ?tb"
    using bytes [of 50] last_chunk_bytes [of ?tb] by simp
  have last_p: "progress (?ws ! 50) = 85"
    using prog [of 50] by (simp add: field_simps)
  have srt: "sorted (map bytesWritten ?ws)"
    using sorted_chunk_bytes by (simp add: ws o_def del: write_chunk_fields)
  show ?thesis
    unfolding Let_def
    using len first bytes prog step_le last_b last_p srt
    by (simp add: chunk_size_def write_start_def)
qed

theorem writing_phase_chunks_witness:
  "port \<lparr>port = Some 1\<rparr> \<noteq> None
   \<and> length (phase_events ''Writing'' (snd (flash \<lparr>port = Some 1\<rparr> scenario_options))) = 51
   \<and> progress (phase_events ''Writing'' (snd (flash \<lparr>port = Some 1\<rparr> scenario_options)) ! 0) = 30
   \<and> bytesWritten (phase_events ''Writing'' (snd (flash \<lparr>port = Some 1\<rparr> scenario_options)) ! 1) = 82
   \<and> progress (phase_events ''Writing'' (snd (flash \<lparr>port = Some 1\<rparr> scenario_options)) ! 1) = 311 / 10
   \<and> bytesWritten (phase_events ''Writing'' (snd (flash \<lparr>port = Some 1\<rparr> scenario_options)) ! 50) = 4096
   \<and> progress (phase_events ''Writing'' (snd (flash \<lparr>port = Some 1\<rparr> scenario_options)) ! 50) = 85"
proof -
  have p: "port \<lparr>port = Some 1\<rparr> \<noteq> None" by simp
  have cs: "nat \<lceil>(of_nat (file_size (file scenario_options)) :: rat) / 50\<rceil> = 82"
    using chunk_size_4096 by (simp add: chunk_size_def scenario_options_def)
  have i: "1 \<le> (1::nat) \<and> (1::nat) \<le> 50" by simp
  from writing_phase_chunks [OF p, of scenario_options] i cs show ?thesis
    unfolding Let_def by (simp add: scenario_options_def)
qed


section \<open>The end of a run\<close>

lemma foldl_onProgress:
  "foldl (onProgress plan) ui evs =
     ui\<lparr>flashProgress := (if evs = [] then flashProgress ui else progress (last evs)),
        flashLogs := flashLogs ui @ map message evs,
        flashSteps := foldl (\<lambda>prev ev. update_steps plan ev prev) (flashSteps ui) evs\<rparr>"
proof (induction evs arbitrary: ui)
  case Nil
  show ?case by simp
next
  case (Cons ev evs)
  show ?case
    by (subst foldl_Cons, subst Cons.IH) (simp add: onProgress_def)
qed

text \<open>
  C7. A run that resolves has emitted events; the last one is the Done event, at percent
  100 with all bytes written and the closing message, and it is the only event of the Done
  phase. When the page is connected and calls \<^verbatim>\<open>flash\<close> with its chosen file and
  settings, \<^verbatim>\<open>handleFlash\<close> ends with the run marked completed, the progress at 100 and
  statistics that carry the size of the file.
\<close>

theorem done_event_and_outcome:
  assumes "fst (flash svc options) = Inr ()"
    and "isConnected ui"
    and "firmwareFile ui = Some (file options)"
    and "advancedSettings ui =
           \<lparr>baudRate = baudRate options, offset = offset options, eraseFlash = eraseFlash options\<rparr>"
  shows "snd (flash svc options) \<noteq> []
     \<and> last (snd (flash svc options)) =
         \<lparr>step = Some ''Done'', progress = 100, bytesWritten = file_size (file options),
          totalBytes = file_size (file options), message = ''Flash completed successfully!''\<rparr>
     \<and> filter (\<lambda>ev. step ev = Some ''Done'') (snd (flash svc options)) = [last (snd (flash svc options))]
     \<and> flashCompleted (handleFlash svc startTime endTime ui)
     \<and> flashProgress (handleFlash svc startTime endTime ui) = 100
     \<and> flashStats (handleFlash svc startTime endTime ui) =
           Some (FlashStats
             (case deviceInfo ui of None \<Rightarrow> ''Unknown''
              | Some info \<Rightarrow> (if chip info \<noteq> [] then chip info else ''Unknown''))
             (baudRate options) (file_size (file options)) (endTime - startTime))"
proof -
  have "fst (flash svc options) = Inl no_device" if "port svc = None"
    using that by (simp add: flash_def)
  with assms(1) have p: "port svc \<noteq> None"
    by auto
  have opts: "\<lparr>baudRate = baudRate options, offset = offset options,
       eraseFlash = eraseFlash options, file = file options\<rparr> = options"
    by simp
  have ne: "snd (flash svc options) \<noteq> []"
    by (simp add: flash_events [OF p])
  have l: "last (snd (flash svc options)) =
         \<lparr>step = Some ''Done'', progress = 100, bytesWritten = file_size (file options),
          totalBytes = file_size (file options), message = ''Flash completed successfully!''\<rparr>"
    by (simp add: last_event [OF p] updateProgress_def)
  have d: "filter (\<lambda>ev. step ev = Some ''Done'') (snd (flash svc options)) = [last (snd (flash svc options))]"
    using done_events [OF p, of options] by (simp add: phase_events_def last_event [OF p])
  have h: "flashCompleted (handleFlash svc startTime endTime ui)
     \<and> flashProgress (handleFlash svc startTime endTime ui) = 100
     \<and> flashStats (handleFlash svc startTime endTime ui) =
           Some (FlashStats
             (case deviceInfo ui of None \<Rightarrow> ''Unknown''
              | Some info \<Rightarrow> (if chip info \<noteq> [] then chip info else ''Unknown''))
             (baudRate options) (file_size (file options)) (endTime - startTime))"
    using assms ne l
    by (simp add: handleFlash_def handleFlash_with_def Let_def opts foldl_onProgress)
  from ne l d h show ?thesis by simp
qed


theorem done_event_and_outcome_witness:
  "fst (flash \<lparr>port = Some 1\<rparr> scenario_options) = Inr ()
   \<and> last (snd (flash \<lparr>port = Some 1\<rparr> scenario_options)) =
         \<lparr>step = Some ''Done'', progress = 100, bytesWritten = 4096, totalBytes = 4096,
          message = ''Flash completed successfully!''\<rparr>
   \<and> filter (\<lambda>ev. step ev = Some ''Done'') (snd (flash \<lparr>port = Some 1\<rparr> scenario_options))
       = [last (snd (flash \<lparr>port = Some 1\<rparr> scenario_options))]
   \<and> flashStats (handleFlash \<lparr>port = Some 1\<rparr> 1000 5400 scenario_ui) =
         Some (FlashStats ''ESP32'' 115200 4096 4400)"
proof -
  have a: "fst (flash \<lparr>port = Some 1\<rparr> scenario_options) = Inr ()"
    by (simp add: flash_events)
  have b: "isConnected scenario_ui"
    by (simp add: scenario_ui_def)
  have c: "firmwareFile scenario_ui = Some (file scenario_options)"
    by (simp add: scenario_ui_def scenario_options_def)
  have d: "advancedSettings scenario_ui =
      \<lparr>baudRate = baudRate scenario_options, offset = offset scenario_options,
       eraseFlash = eraseFlash scenario_options\<rparr>"
    by (simp add: scenario_ui_def scenario_options_def)
  have e: "deviceInfo scenario_ui =
      Some \<lparr>chip = ''ESP32'', port_label = ''USB'', mac = Some ''24:6F:28:A1B2C3''\<rparr>"
    by (simp add: scenario_ui_def)
  have f: "baudRate scenario_options = 115200" "file_size (file scenario_options) = 4096"
    by (simp_all add: scenario_options_def)
  from done_event_and_outcome [OF a b c d, of 1000 5400] a show ?thesis
    by (simp add: e f)
qed

section \<open>The step list of the page\<close>

lemma length_update_steps [simp]: "length (update_steps plan pr prev) = length prev"
  by (simp add: update_steps_def)

lemma nth_update_steps:
  "i < length prev \<Longrightarrow> update_steps plan pr prev ! i = update_step plan pr (prev ! i) i"
  by (simp add: update_steps_def)

lemma name_update_step [simp]: "name (update_step plan pr st i) = name st"
  by (simp add: update_step_def Let_def)

lemma names_update_steps [simp]: "map name (update_steps plan pr prev) = map name prev"
  by (rule nth_equalityI) (simp_all add: nth_update_steps)

lemma indexOf_from_absent:
  "y \<notin> Some ` set xs \<Longrightarrow> indexOf_from xs y k = - 1"
  by (induction xs arbitrary: k) auto

lemma indexOf_from_nth:
  "distinct xs \<Longrightarrow> p < length xs \<Longrightarrow> indexOf_from xs (Some (xs ! p)) k = k + int p"
proof (induction xs arbitrary: k p)
  case Nil
  then show ?case by simp
next
  case (Cons x xs)
  show ?case
  proof (cases p)
    case 0
    then show ?thesis by simp
  next
    case (Suc q)
    with Cons.prems have "x \<noteq> xs ! q" "distinct xs" "q < length xs"
      by auto
    with Cons.IH [of q "k + 1"] Suc show ?thesis
      by simp
  qed
qed

lemma indexOf_nth: "distinct xs \<Longrightarrow> p < length xs \<Longrightarrow> indexOf xs (Some (xs ! p)) = int p"
  by (simp add: indexOf_def indexOf_from_nth)

lemma indexOf_absent: "y \<notin> Some ` set xs \<Longrightarrow> indexOf xs y = - 1"
  by (simp add: indexOf_def indexOf_from_absent)

lemma distinct_steps: "distinct (steps e)"
  by (simp add: steps_def)

lemma update_step_present:
  assumes "distinct plan" and "p < length plan" and "i < length plan"
    and "name st = plan ! i" and "step pr = Some (plan ! p)"
  shows "update_step plan pr st i =
     (if i = p then st\<lparr>status := active\<rparr> else if i < p then st\<lparr>status := completed\<rparr> else st)"
  using assms by (auto simp add: update_step_def Let_def indexOf_nth nth_eq_iff_index_eq)

lemma update_step_absent:
  assumes "step pr \<notin> Some ` set plan" and "name st \<in> set plan"
  shows "update_step plan pr st i = st"
proof -
  have "Some (name st) \<noteq> step pr"
    using assms by (metis imageI)
  then show ?thesis
    using assms(1) by (simp add: update_step_def Let_def indexOf_absent)
qed

lemma update_steps_absent:
  assumes "step pr \<notin> Some ` set plan" and "set (map name prev) \<subseteq> set plan"
  shows "update_steps plan pr prev = prev"
proof (rule nth_equalityI)
  show "length (update_steps plan pr prev) = length prev" by simp
next
  fix i assume "i < length (update_steps plan pr prev)"
  then have i: "i < length prev" by simp
  then have "name (prev ! i) \<in> set plan"
    using assms(2) by (metis nth_map length_map nth_mem subsetD)
  then show "update_steps plan pr prev ! i = prev ! i"
    using i assms(1) by (simp add: nth_update_steps update_step_absent)
qed

lemma update_step_idem:
  "update_step plan pr (update_step plan pr st i) i = update_step plan pr st i"
  by (simp add: update_step_def Let_def)

lemma update_steps_idem:
  "update_steps plan pr (update_steps plan pr prev) = update_steps plan pr prev"
  by (rule nth_equalityI) (simp_all add: nth_update_steps update_step_idem)

lemma length_shape [simp]: "length (shape plan k) = length plan"
  by (simp add: shape_def)

lemma nth_shape [simp]:
  "i < length plan \<Longrightarrow> shape plan k ! i = \<lparr>name = plan ! i, status = phase_status k i\<rparr>"
  by (simp add: shape_def)

lemma reset_steps_shape: "reset_steps plan = shape plan 0"
  by (rule nth_equalityI) (simp_all add: reset_steps_def phase_status_def)

lemma update_shape:
  assumes "distinct plan" and "q < length plan" and "step pr = Some (plan ! q)" and "k \<le> Suc q"
  shows "update_steps plan pr (shape plan k) = shape plan (Suc q)"
proof (rule nth_equalityI)
  show "length (update_steps plan pr (shape plan k)) = length (shape plan (Suc q))"
    by simp
next
  fix i assume "i < length (update_steps plan pr (shape plan k))"
  then have i: "i < length plan" by simp
  have "update_step plan pr (shape plan k ! i) i =
      (if i = q then (shape plan k ! i)\<lparr>status := active\<rparr>
       else if i < q then (shape plan k ! i)\<lparr>status := completed\<rparr> else shape plan k ! i)"
    using i by (intro update_step_present [OF assms(1) assms(2) i _ assms(3)]) simp
  then show "update_steps plan pr (shape plan k) ! i = shape plan (Suc q) ! i"
    using i assms(4) by (auto simp add: nth_update_steps phase_status_def)
qed

lemma fold_shape:
  assumes "distinct plan"
    and "\<forall>ev \<in> set evs. f ev < length plan \<and> step ev = Some (plan ! f ev) \<and> k \<le> Suc (f ev)"
    and "sorted (map f evs)"
  shows "foldl (\<lambda>prev ev. update_steps plan ev prev) (shape plan k) evs =
           shape plan (if evs = [] then k else Suc (f (last evs)))"
  using assms(2,3)
proof (induction evs arbitrary: k)
  case Nil
  show ?case by simp
next
  case (Cons ev evs)
  have ev: "f ev < length plan" "step ev = Some (plan ! f ev)" "k \<le> Suc (f ev)"
    using Cons.prems(1) by simp_all
  have step1: "update_steps plan ev (shape plan k) = shape plan (Suc (f ev))"
    by (rule update_shape [OF assms(1) ev])
  have rest: "\<forall>ev' \<in> set evs. f ev' < length plan \<and> step ev' = Some (plan ! f ev') \<and> Suc (f ev) \<le> Suc (f ev')"
    using Cons.prems by auto
  have srt: "sorted (map f evs)"
    using Cons.prems(2) by simp
  show ?case
    by (simp add: step1 Cons.IH [OF rest srt])
qed

lemma in_plan_index:
  assumes "distinct plan" and "step ev \<in> Some ` set plan"
  shows "phase_index plan ev < length plan \<and> step ev = Some (plan ! phase_index plan ev)"
proof -
  from assms(2) obtain p where p: "p < length plan" "step ev = Some (plan ! p)"
    by (auto simp add: in_set_conv_nth)
  then have "phase_index plan ev = p"
    using assms(1) by (simp add: phase_index_def indexOf_nth)
  with p show ?thesis by simp
qed

lemma events_in_plan:
  assumes "ev \<in> set (snd (flash svc options))"
  shows "step ev \<in> Some ` set (steps (eraseFlash options))"
proof (cases "port svc = None")
  case True
  with assms show ?thesis by (simp add: flash_def)
next
  case False
  with assms show ?thesis
    by (auto simp add: flash_events steps_def split: if_splits)
qed

lemma phase_index_updateProgress [simp]:
  "phase_index plan (updateProgress tb st pr w msg) = nat (indexOf plan st)"
  by (simp add: phase_index_def)

lemma phase_index_write_chunk [simp]:
  "phase_index plan (write_chunk st ws we chunks cs tb i) = nat (indexOf plan st)"
  by (simp add: phase_index_def)

lemma sorted_phase_index:
  assumes "port svc \<noteq> None"
  shows "sorted (map (phase_index (steps (eraseFlash options))) (snd (flash svc options)))"
  by (simp add: flash_events [OF assms] o_def sorted_append indexOf_def steps_def map_replicate_const)

lemma status_mark_current_error:
  "i < length prev \<Longrightarrow>
     status (mark_current_error prev ! i) = (if status (prev ! i) = active then error else status (prev ! i))"
  by (simp add: mark_current_error_def)

lemma names_mark_current_error: "map name (mark_current_error prev) = map name prev"
  by (simp add: mark_current_error_def o_def if_distrib cong: if_cong)

lemma names_shape: "map name (shape plan k) = plan"
  by (rule nth_equalityI) simp_all

text \<open>
  C8. The step list is seeded from the plan with every phase pending. For a step list that
  has the names of the plan: an event of the phase at position \<open>p\<close> makes that phase
  active and every phase before it completed, and leaves the status of every later phase
  as it was; an event of a phase that is not in the plan changes nothing. The names are
  kept, and handling the same event twice is the same as handling it once.
\<close>

theorem reconciler_event:
  assumes "map name prev = steps e"
  shows "(\<forall>p < length (steps e). step pr = Some (steps e ! p) \<longrightarrow>
           (\<forall>i < length (steps e).
              status (update_steps (steps e) pr prev ! i) =
                (if i = p then active else if i < p then completed else status (prev ! i))))
     \<and> (step pr \<notin> Some ` set (steps e) \<longrightarrow> update_steps (steps e) pr prev = prev)
     \<and> map name (update_steps (steps e) pr prev) = steps e
     \<and> update_steps (steps e) pr (update_steps (steps e) pr prev) = update_steps (steps e) pr prev
     \<and> map name (reset_steps (steps e)) = steps e
     \<and> (\<forall>st \<in> set (reset_steps (steps e)). status st = pending)"
proof -
  have len: "length prev = length (steps e)"
    using assms by (metis length_map)
  have nm: "name (prev ! i) = steps e ! i" if "i < length (steps e)" for i
    using that assms len by (metis nth_map)
  have present: "status (update_steps (steps e) pr prev ! i) =
        (if i = p then active else if i < p then completed else status (prev ! i))"
    if "p < length (steps e)" "step pr = Some (steps e ! p)" "i < length (steps e)" for p i
    using that len nm [OF that(3)]
    by (simp add: nth_update_steps update_step_present [OF distinct_steps that(1) that(3)])
  have absent: "update_steps (steps e) pr prev = prev" if "step pr \<notin> Some ` set (steps e)"
    using that assms by (simp add: update_steps_absent)
  have seed: "map name (reset_steps (steps e)) = steps e"
    "\<forall>st \<in> set (reset_steps (steps e)). status st = pending"
    by (auto simp add: reset_steps_def o_def)
  show ?thesis
    using present absent seed assms update_steps_idem by simp
qed

theorem reconciler_event_witness:
  "map name (reset_steps (steps True)) = steps True
   \<and> status (update_steps (steps True) writing_event (reset_steps (steps True)) ! 0) = completed
   \<and> status (update_steps (steps True) writing_event (reset_steps (steps True)) ! 2) = completed
   \<and> status (update_steps (steps True) writing_event (reset_steps (steps True)) ! 3) = active
   \<and> status (update_steps (steps True) writing_event (reset_steps (steps True)) ! 4) = pending
   \<and> update_steps (steps True) diagnostic_event (reset_steps (steps True)) = reset_steps (steps True)"
proof -
  let ?upd = "update_steps (steps True) writing_event (reset_steps (steps True))"
  have seed: "map name (reset_steps (steps True)) = steps True"
    by (simp add: reset_steps_def steps_def)
  have w: "(3::nat) < length (steps True)" "step writing_event = Some (steps True ! 3)"
    by (simp_all add: steps_def writing_event_def)
  have d: "step diagnostic_event \<notin> Some ` set (steps True)"
    by (simp add: steps_def diagnostic_event_def image_iff)
  have i: "(0::nat) < length (steps True)" "(2::nat) < length (steps True)"
    "(4::nat) < length (steps True)"
    by (simp_all add: steps_def)
  have pend: "status (reset_steps (steps True) ! 4) = pending"
    by (simp add: steps_def reset_steps_def)
  from reconciler_event [OF seed, of writing_event] w
  have all: "\<forall>i < length (steps True).
      status (?upd ! i) =
        (if i = 3 then active else if i < 3 then completed else status (reset_steps (steps True) ! i))"
    by blast
  have "status (?upd ! 0) = completed" "status (?upd ! 2) = completed"
    "status (?upd ! 3) = active" "status (?upd ! 4) = pending"
    using all [rule_format, OF i(1)] all [rule_format, OF i(2)] all [rule_format, OF w(1)]
      all [rule_format, OF i(3)] pend
    by simp_all
  moreover from reconciler_event [OF seed, of diagnostic_event] d
  have "update_steps (steps True) diagnostic_event (reset_steps (steps True)) = reset_steps (steps True)"
    by blast
  ultimately show ?thesis using seed by simp
qed

section \<open>A run that fails\<close>

text \<open>
  With the \<^verbatim>\<open>FlashService\<close> of the repository the only rejection comes from the guard
  on the port: no event has been emitted, no phase is active, and the handler leaves every
  phase pending.
\<close>

lemma handleFlash_without_port:
  assumes "isConnected ui" and "firmwareFile ui = Some fw" and "port svc = None"
  shows "flashError (handleFlash svc startTime endTime ui) = Some ''No device connected''
     \<and> flashSteps (handleFlash svc startTime endTime ui) =
         reset_steps (steps (eraseFlash (advancedSettings ui)))"
  using assms
  by (simp add: handleFlash_def handleFlash_with_def Let_def flash_def no_device_def
        getErrorMessage_def mark_current_error_def reset_steps_def o_def)

lemma fold_plan_events:
  assumes "distinct plan" and "evs \<noteq> []"
    and "\<forall>ev \<in> set evs. step ev \<in> Some ` set plan"
    and "sorted (map (phase_index plan) evs)"
  shows "foldl (\<lambda>prev ev. update_steps plan ev prev) (reset_steps plan) evs =
           shape plan (Suc (phase_index plan (last evs)))"
proof -
  have idx: "phase_index plan ev < length plan \<and> step ev = Some (plan ! phase_index plan ev)"
    if "ev \<in> set evs" for ev
    by (rule in_plan_index [OF assms(1) assms(3) [rule_format, OF that]])
  have "\<forall>ev \<in> set evs. phase_index plan ev < length plan
          \<and> step ev = Some (plan ! phase_index plan ev) \<and> 0 \<le> Suc (phase_index plan ev)"
  proof
    fix ev assume "ev \<in> set evs"
    from idx [OF this]
    show "phase_index plan ev < length plan
          \<and> step ev = Some (plan ! phase_index plan ev) \<and> 0 \<le> Suc (phase_index plan ev)"
      by blast
  qed
  from fold_shape [OF assms(1) this assms(4)] assms(2) show ?thesis
    by (simp add: reset_steps_shape)
qed

text \<open>
  C9. The page is connected and has a file, and the \<^verbatim>\<open>flash\<close> of its service rejects
  after handing the callback a non-empty list of events whose phases are in the plan, at
  positions that never decrease. Let \<open>p\<close> be the position of the phase of the last
  event. At the moment of failure the phases before \<open>p\<close> are completed, phase \<open>p\<close> is
  active and the later ones are pending; when \<^verbatim>\<open>handleFlash\<close> has run its \<^verbatim>\<open>catch\<close>
  block, phase \<open>p\<close> is in error, the phases before it are still completed and the later
  ones still pending. The error message is set and the run is neither flashing nor
  completed.
\<close>

theorem failure_demotes_active_phase:
  assumes "isConnected ui" and "firmwareFile ui = Some fw"
    and "fl \<lparr>baudRate = baudRate (advancedSettings ui), offset = offset (advancedSettings ui),
             eraseFlash = eraseFlash (advancedSettings ui), file = fw\<rparr> = (Inl err, evs)"
    and "evs \<noteq> []"
    and "\<forall>ev \<in> set evs. step ev \<in> Some ` set (steps (eraseFlash (advancedSettings ui)))"
    and "sorted (map (phase_index (steps (eraseFlash (advancedSettings ui)))) evs)"
  shows "let plan = steps (eraseFlash (advancedSettings ui));
             at_failure = foldl (\<lambda>prev ev. update_steps plan ev prev) (reset_steps plan) evs;
             after = handleFlash_with fl startTime endTime ui
         in \<exists>p < length plan.
              step (last evs) = Some (plan ! p)
              \<and> (\<forall>i < length plan.
                    status (at_failure ! i) =
                      (if i < p then completed else if i = p then active else pending)
                    \<and> status (flashSteps after ! i) =
                      (if i < p then completed else if i = p then error else pending))
              \<and> map name (flashSteps after) = plan
              \<and> flashError after = Some (getErrorMessage err)
              \<and> \<not> flashCompleted after \<and> \<not> isFlashing after"
proof -
  let ?plan = "steps (eraseFlash (advancedSettings ui))"
  let ?st = "foldl (\<lambda>prev ev. update_steps ?plan ev prev) (reset_steps ?plan) evs"
  let ?after = "handleFlash_with fl startTime endTime ui"
  let ?p = "phase_index ?plan (last evs)"
  have st: "?st = shape ?plan (Suc ?p)"
    by (rule fold_plan_events [OF distinct_steps assms(4,5,6)])
  have "last evs \<in> set evs"
    using assms(4) by simp
  with assms(5) have "step (last evs) \<in> Some ` set ?plan"
    by blast
  then have "?p < length ?plan \<and> step (last evs) = Some (?plan ! ?p)"
    by (rule in_plan_index [OF distinct_steps])
  then have p: "?p < length ?plan" "step (last evs) = Some (?plan ! ?p)"
    by simp_all
  have steps_after: "flashSteps ?after = mark_current_error ?st"
    using assms(1-3) by (simp add: handleFlash_with_def Let_def foldl_onProgress)
  have at_failure: "status (?st ! i) = (if i < ?p then completed else if i = ?p then active else pending)"
    if "i < length ?plan" for i
    using that by (auto simp add: st phase_status_def)
  have after: "status (flashSteps ?after ! i) =
      (if i < ?p then completed else if i = ?p then error else pending)"
    if "i < length ?plan" for i
    using that at_failure [OF that] by (simp add: steps_after status_mark_current_error st)
  have names: "map name (flashSteps ?after) = ?plan"
    by (simp add: steps_after names_mark_current_error st names_shape)
  have rest: "flashError ?after = Some (getErrorMessage err)"
    "\<not> flashCompleted ?after" "\<not> isFlashing ?after"
    using assms(1-3) by (simp_all add: handleFlash_with_def Let_def foldl_onProgress)
  show ?thesis
    unfolding Let_def
    by (rule exI [of _ ?p]) (simp add: p at_failure after names rest)
qed


theorem failure_demotes_active_phase_witness:
  "isConnected scenario_ui
   \<and> fst (lossy_flash scenario_options) = Inl (JsError ''NetworkError'' ''The device has been lost.'')
   \<and> step (last (snd (lossy_flash scenario_options))) = Some ''Writing''
   \<and> status (flashSteps (handleFlash_with lossy_flash 1000 2400 scenario_ui) ! 2) = completed
   \<and> status (flashSteps (handleFlash_with lossy_flash 1000 2400 scenario_ui) ! 3) = error
   \<and> status (flashSteps (handleFlash_with lossy_flash 1000 2400 scenario_ui) ! 4) = pending
   \<and> flashError (handleFlash_with lossy_flash 1000 2400 scenario_ui) =
       Some ''Failed to communicate with device. Check your connection and try again.''"
proof -
  let ?fw = "\<lparr>file_name = ''firmware.bin'', file_size = 4096\<rparr>"
  let ?opts = "\<lparr>baudRate = baudRate (advancedSettings scenario_ui),
      offset = offset (advancedSettings scenario_ui),
      eraseFlash = eraseFlash (advancedSettings scenario_ui), file = ?fw\<rparr>"
  let ?err = "JsError ''NetworkError'' ''The device has been lost.''"
  let ?all = "snd (flash \<lparr>port = Some 1\<rparr> scenario_options)"
  let ?evs = "take 10 ?all"
  let ?plan = "steps (eraseFlash (advancedSettings scenario_ui))"
  let ?after = "handleFlash_with lossy_flash 1000 2400 scenario_ui"
  have opts: "?opts = scenario_options"
    by (simp add: scenario_ui_def scenario_options_def)
  have erase: "eraseFlash (advancedSettings scenario_ui) = eraseFlash scenario_options"
    by (simp add: scenario_ui_def scenario_options_def)
  have plan: "?plan = steps True"
    by (simp add: scenario_ui_def)
  have a: "isConnected scenario_ui"
    by (simp add: scenario_ui_def)
  have b: "firmwareFile scenario_ui = Some ?fw"
    by (simp add: scenario_ui_def)
  have c: "lossy_flash ?opts = (Inl ?err, ?evs)"
    by (simp only: opts lossy_flash_def)
  have port: "port \<lparr>port = Some 1\<rparr> \<noteq> None"
    by simp
  have d: "?evs \<noteq> []"
    by (simp add: flash_events)
  have e: "\<forall>ev \<in> set ?evs. step ev \<in> Some ` set ?plan"
  proof
    fix ev assume "ev \<in> set ?evs"
    then have "ev \<in> set ?all" by (rule in_set_takeD)
    then show "step ev \<in> Some ` set ?plan"
      unfolding erase by (rule events_in_plan)
  qed
  have f: "sorted (map (phase_index ?plan) ?evs)"
    unfolding erase take_map [symmetric]
    by (rule sorted_wrt_take) (rule sorted_phase_index [OF port])
  have lst: "step (last ?evs) = Some ''Writing''"
    by (simp add: flash_events scenario_options_def last_conv_nth nth_append)
  from failure_demotes_active_phase
    [where ui = scenario_ui and fl = lossy_flash and startTime = 1000 and endTime = 2400,
     OF a b c d e f]
  have "\<exists>p < length ?plan.
          step (last ?evs) = Some (?plan ! p)
          \<and> (\<forall>i < length ?plan.
                status (flashSteps ?after ! i) =
                  (if i < p then completed else if i = p then error else pending))
          \<and> flashError ?after = Some (getErrorMessage ?err)"
    unfolding Let_def by blast
  then obtain p where p: "p < length (steps True)" "step (last ?evs) = Some (steps True ! p)"
    and st: "\<forall>i < length (steps True).
        status (flashSteps ?after ! i) = (if i < p then completed else if i = p then error else pending)"
    and msg: "flashError ?after = Some (getErrorMessage ?err)"
    unfolding plan by blast
  have three: "steps True ! 3 = ''Writing''" "3 < length (steps True)"
    by (simp_all add: steps_def)
  from p(2) lst three(1) have "steps True ! p = steps True ! 3"
    by simp
  with p(1) three(2) have p3: "p = 3"
    by (simp add: nth_eq_iff_index_eq [OF distinct_steps])
  have i: "(2::nat) < length (steps True)" "(4::nat) < length (steps True)"
    by (simp_all add: steps_def)
  have "status (flashSteps ?after ! 2) = completed"
    "status (flashSteps ?after ! 3) = error"
    "status (flashSteps ?after ! 4) = pending"
    using st [rule_format, OF i(1)] st [rule_format, OF three(2)] st [rule_format, OF i(2)] p3
    by simp_all
  moreover have "fst (lossy_flash scenario_options) = Inl ?err"
    "snd (lossy_flash scenario_options) = ?evs"
    by (simp_all add: lossy_flash_def)
  moreover have "getErrorMessage ?err =
      ''Failed to communicate with device. Check your connection and try again.''"
    by (simp add: getErrorMessage_def)
  ultimately show ?thesis
    using a lst msg by simp
qed

end
